theory Spec2Isabelle
  imports Main
begin

section \<open>Python exceptions as values\<close>

text \<open>
  Every \<^verbatim>\<open>raise\<close> and every failing \<^verbatim>\<open>assert\<close> of
  \<^verbatim>\<open>train_textual_inversion.py\<close> that the modelled code can reach is a constructor here.
  The three assertion errors of the token registration are kept apart (lines 116, 122, 123), and so
  are the two \<^verbatim>\<open>ValueError\<close>s of \<^verbatim>\<open>load_weights\<close> (lines 527, 536). The others are
  raised by Python itself or by the libraries the code calls: an index out of range, a modulus by
  zero, a file that is missing or cannot be deserialised, \<^verbatim>\<open>next\<close> on an exhausted
  iterator, and \<^verbatim>\<open>.values()\<close> on an object without that method or on a dense tensor.
\<close>

datatype error =
    TokenConflict
  | TokenIdsNotOrdered
  | TokenIdsNotAtEnd
  | IndexError
  | ZeroDivisionError
  | WeightFileNotDict
  | WeightFileNoTensor
  | FileNotFoundError
  | DeserializeError
  | StopIteration
  | AttributeError
  | RuntimeError



section \<open>Token strings (line 114)\<close>

text \<open>
  \<^verbatim>\<open>f"{args.token_string}{i+1}"\<close> appends the decimal numeral of the positive integer
  \<^verbatim>\<open>i+1\<close>.
\<close>

definition digit_char :: "nat \<Rightarrow> char" where
  "digit_char d = ''0123456789'' ! d"

fun str_nat :: "nat \<Rightarrow> string" where
  "str_nat n = (if n < 10 then [digit_char n] else str_nat (n div 10) @ [digit_char (n mod 10)])"

declare str_nat.simps [simp del]

text \<open>
  \<^verbatim>\<open>[args.token_string] + [f"{args.token_string}{i+1}" for i in range(args.num_vectors_per_token - 1)]\<close>;
  \<^verbatim>\<open>num_vectors_per_token\<close> is a Python int (argparse \<^verbatim>\<open>type=int\<close>), and
  \<^verbatim>\<open>range\<close> of a number below one is empty.
\<close>

definition token_strings :: "string \<Rightarrow> int \<Rightarrow> string list" where
  "token_strings token_string num_vectors_per_token =
     token_string # map (\<lambda>i. token_string @ str_nat (i + 1)) [0..<nat (num_vectors_per_token - 1)]"

section \<open>The tokenizer\<close>

text \<open>
  Modelled from the spec: the tokenizer, an external collaborator that is not part of this
  repository's sources (spec section 6: a tokenizer with \<^verbatim>\<open>encode\<close>, \<^verbatim>\<open>add_tokens\<close> and
  \<^verbatim>\<open>convert_tokens_to_ids\<close>; section 3: the vocabulary is an ordered mapping from token
  string to integer id with contiguous ids). The vocabulary is the list of its token strings, the id
  of a string being its position; \<^verbatim>\<open>len(tokenizer)\<close> is the number of its entries.
\<close>

record tokenizer =
  vocab :: "string list"
  unk_token_id :: nat

definition len_tokenizer :: "tokenizer \<Rightarrow> nat" where
  "len_tokenizer tok = length (vocab tok)"

text \<open>
  Modelled from the spec: \<^verbatim>\<open>tokenizer.add_tokens\<close>, which is not part of this repository's
  sources. It appends, in order, every given string that is neither in the vocabulary nor already
  appended, with ids starting at the size of the vocabulary, and returns how many it appended: line
  115 reads that number and line 117 compares it with the number requested ("the add operation must
  add exactly K new ids; any deviation is fatal", spec section 4.1).
\<close>

fun tokens_to_add :: "string list \<Rightarrow> string list \<Rightarrow> string list \<Rightarrow> string list" where
  "tokens_to_add v [] acc = acc"
| "tokens_to_add v (t # ts) acc =
     tokens_to_add v ts (if t \<notin> set v \<and> t \<notin> set acc then acc @ [t] else acc)"

definition add_tokens :: "tokenizer \<Rightarrow> string list \<Rightarrow> nat \<times> tokenizer" where
  "add_tokens tok new_tokens =
     (let added = tokens_to_add (vocab tok) new_tokens []
      in (length added, tok\<lparr>vocab := vocab tok @ added\<rparr>))"

text \<open>
  Modelled from the spec: \<^verbatim>\<open>tokenizer.convert_tokens_to_ids\<close>, which is not part of this
  repository's sources. The id of a string is its position in the vocabulary; a string that is not
  in the vocabulary converts to the id of the unknown token.
\<close>

fun index_of :: "'a \<Rightarrow> 'a list \<Rightarrow> nat option" where
  "index_of x [] = None"
| "index_of x (y # ys) = (if x = y then Some 0 else map_option Suc (index_of x ys))"

definition convert_token_to_id :: "tokenizer \<Rightarrow> string \<Rightarrow> nat" where
  "convert_token_to_id tok s = (case index_of s (vocab tok) of Some i \<Rightarrow> i | None \<Rightarrow> unk_token_id tok)"

definition convert_tokens_to_ids :: "tokenizer \<Rightarrow> string list \<Rightarrow> nat list" where
  "convert_tokens_to_ids tok ss = map (convert_token_to_id tok) ss"

section \<open>The embedding matrix\<close>

text \<open>
  The embedding matrix is the list of its rows, indexed by token id. A row is a value of any type:
  the code modelled here copies and compares rows and never computes with their entries.
\<close>

text \<open>
  Modelled from the spec: \<^verbatim>\<open>text_encoder.resize_token_embeddings\<close> (line 126), which belongs to
  the text encoder and is not part of this repository's sources ("resize the encoder's embedding
  matrix to the new vocabulary size", spec section 4.1). The result has \<open>n\<close> rows, the old rows
  kept, and each new row initialised by the encoder: \<open>fresh\<close> gives that initial value, which the
  spec leaves implementation-defined.
\<close>

definition resize_token_embeddings :: "'row list \<Rightarrow> (nat \<Rightarrow> 'row) \<Rightarrow> nat \<Rightarrow> 'row list" where
  "resize_token_embeddings emb fresh n = map (\<lambda>r. if r < length emb then emb ! r else fresh r) [0..<n]"

section \<open>Token registration (lines 113 to 126)\<close>

text \<open>
  The tokenizer is mutated in place by \<^verbatim>\<open>add_tokens\<close> before the assertions run, so the
  model returns the tokenizer and the matrix as they are when the function returns or raises.
  \<^verbatim>\<open>token_ids\<close> is never empty (\<^verbatim>\<open>token_strings\<close> has at least one element), so
  \<^verbatim>\<open>token_ids[0]\<close> and \<^verbatim>\<open>token_ids[-1]\<close> are \<open>hd\<close> and \<open>last\<close>.
\<close>

definition add_new_tokens ::
  "tokenizer \<Rightarrow> 'row list \<Rightarrow> (nat \<Rightarrow> 'row) \<Rightarrow> string \<Rightarrow> int
     \<Rightarrow> (error + nat list) \<times> tokenizer \<times> 'row list" where
  "add_new_tokens tok emb fresh token_string num_vectors_per_token =
     (let strs = token_strings token_string num_vectors_per_token;
          (num_added_tokens, tok1) = add_tokens tok strs
      in if int num_added_tokens \<noteq> num_vectors_per_token then (Inl TokenConflict, tok1, emb)
         else
           let token_ids = convert_tokens_to_ids tok1 strs
           in if \<not> (min_list token_ids = hd token_ids
                    \<and> int (last token_ids) = int (hd token_ids) + int (length token_ids) - 1)
              then (Inl TokenIdsNotOrdered, tok1, emb)
              else if int (len_tokenizer tok1) - 1 \<noteq> int (last token_ids)
              then (Inl TokenIdsNotAtEnd, tok1, emb)
              else (Inr token_ids, tok1, resize_token_embeddings emb fresh (len_tokenizer tok1)))"

section \<open>Initialisation from the initializer word (lines 128 to 132)\<close>

text \<open>
  \<^verbatim>\<open>for i, token_id in enumerate(token_ids):
      token_embeds[token_id] = token_embeds[init_token_ids[i % len(init_token_ids)]]\<close>
  The assignments happen in place, one after the other; \<^verbatim>\<open>%\<close> by zero and a row index out
  of range raise. \<^verbatim>\<open>init_token_ids\<close> is what \<^verbatim>\<open>tokenizer.encode\<close> returned at line 105,
  before the new tokens were added.
\<close>

fun init_loop :: "nat list \<Rightarrow> (nat \<times> nat) list \<Rightarrow> 'row list \<Rightarrow> error + 'row list" where
  "init_loop init_token_ids [] token_embeds = Inr token_embeds"
| "init_loop init_token_ids ((i, token_id) # rest) token_embeds =
     (if length init_token_ids = 0 then Inl ZeroDivisionError
      else
        let j = init_token_ids ! (i mod length init_token_ids)
        in if length token_embeds \<le> j then Inl IndexError
           else if length token_embeds \<le> token_id then Inl IndexError
           else init_loop init_token_ids rest (token_embeds[token_id := token_embeds ! j]))"

definition init_token_embeds :: "nat list option \<Rightarrow> nat list \<Rightarrow> 'row list \<Rightarrow> error + 'row list" where
  "init_token_embeds init_token_ids token_ids token_embeds =
     (case init_token_ids of
        None \<Rightarrow> Inr token_embeds
      | Some ids \<Rightarrow> init_loop ids (enumerate 0 token_ids) token_embeds)"

section \<open>Tensors and checkpoint files\<close>

text \<open>
  A tensor is its element type, its shape and its elements in row-major order. The elements are
  values of any type; converting an element from one element type to another is the parameter
  \<open>conv\<close> of the functions below (floating-point rounding is not modelled).
\<close>

datatype dtype = Float32 | Float16 | BFloat16

record 'v tensor =
  dtype :: dtype
  shape :: "nat list"
  elems :: "'v list"

text \<open>\<^verbatim>\<open>v.detach().clone().to("cpu").to(save_dtype)\<close> (line 507).\<close>

definition to_dtype :: "(dtype \<Rightarrow> dtype \<Rightarrow> 'v \<Rightarrow> 'v) \<Rightarrow> dtype \<Rightarrow> 'v tensor \<Rightarrow> 'v tensor" where
  "to_dtype conv d t = t\<lparr>dtype := d, elems := map (conv (dtype t) d) (elems t)\<rparr>"

text \<open>\<^verbatim>\<open>emb.unsqueeze(0)\<close> (line 539).\<close>

definition unsqueeze0 :: "'v tensor \<Rightarrow> 'v tensor" where
  "unsqueeze0 t = t\<lparr>shape := 1 # shape t\<rparr>"

text \<open>
  What \<^verbatim>\<open>torch.load\<close> can return: a plain \<^verbatim>\<open>dict\<close> (its items in iteration order), a
  \<^verbatim>\<open>torch.Tensor\<close>, an \<^verbatim>\<open>nn.Parameter\<close> (a subclass, so
  \<^verbatim>\<open>type(emb) != torch.Tensor\<close> holds for it), an object with a \<^verbatim>\<open>_parameters\<close>
  attribute (the items of that attribute), or anything else.
\<close>

datatype 'v pyobj =
    PyDict "(string \<times> 'v pyobj) list"
  | PyTensor "'v tensor"
  | PyParameter "'v tensor"
  | PyModule "(string \<times> 'v pyobj) list"
  | PyOther

text \<open>
  A file is a safetensors archive (the items that \<^verbatim>\<open>load_file\<close> returns, in the order of the
  dictionary it returns) or a pickled object. Each of the two readers fails on a missing file and on
  a file of the other kind. Writing is assumed to succeed.
\<close>

datatype 'v file_content =
    SafetensorsArchive "(string \<times> 'v tensor) list"
  | PickleFile "'v pyobj"

type_synonym 'v filesystem = "string \<Rightarrow> 'v file_content option"

definition load_file :: "'v filesystem \<Rightarrow> string \<Rightarrow> error + (string \<times> 'v tensor) list" where
  "load_file fs file =
     (case fs file of
        None \<Rightarrow> Inl FileNotFoundError
      | Some (SafetensorsArchive kvs) \<Rightarrow> Inr kvs
      | Some (PickleFile obj) \<Rightarrow> Inl DeserializeError)"

definition torch_load :: "'v filesystem \<Rightarrow> string \<Rightarrow> error + 'v pyobj" where
  "torch_load fs file =
     (case fs file of
        None \<Rightarrow> Inl FileNotFoundError
      | Some (PickleFile obj) \<Rightarrow> Inr obj
      | Some (SafetensorsArchive kvs) \<Rightarrow> Inl DeserializeError)"

definition save_file :: "(string \<times> 'v tensor) list \<Rightarrow> string \<Rightarrow> 'v filesystem \<Rightarrow> 'v filesystem" where
  "save_file state_dict file fs = fs(file \<mapsto> SafetensorsArchive state_dict)"

definition torch_save :: "(string \<times> 'v tensor) list \<Rightarrow> string \<Rightarrow> 'v filesystem \<Rightarrow> 'v filesystem" where
  "torch_save state_dict file fs =
     fs(file \<mapsto> PickleFile (PyDict (map (\<lambda>(k, v). (k, PyTensor v)) state_dict)))"

subsection \<open>\<^verbatim>\<open>os.path.splitext\<close>\<close>

text \<open>
  The POSIX \<^verbatim>\<open>splitext\<close>: the extension starts at the last dot of the last path component,
  unless only dots precede it there. \<^verbatim>\<open>rfind\<close> is \<open>-1\<close> when the character is absent.
\<close>

definition rfind :: "char \<Rightarrow> string \<Rightarrow> int" where
  "rfind c p = (case index_of c (rev p) of None \<Rightarrow> - 1 | Some i \<Rightarrow> int (length p) - 1 - int i)"

definition splitext :: "string \<Rightarrow> string \<times> string" where
  "splitext p =
     (let sepIndex = rfind CHR ''/'' p;
          dotIndex = rfind CHR ''.'' p
      in if dotIndex > sepIndex
            \<and> list_ex (\<lambda>filenameIndex. p ! filenameIndex \<noteq> CHR ''.'') [nat (sepIndex + 1)..<nat dotIndex]
         then (take (nat dotIndex) p, drop (nat dotIndex) p)
         else (p, []))"

section \<open>\<^verbatim>\<open>save_weights\<close> (lines 501 to 515)\<close>

definition save_weights ::
  "(dtype \<Rightarrow> dtype \<Rightarrow> 'v \<Rightarrow> 'v) \<Rightarrow> string \<Rightarrow> 'v tensor \<Rightarrow> dtype option \<Rightarrow> 'v filesystem \<Rightarrow> 'v filesystem" where
  "save_weights conv file updated_embs save_dtype fs =
     (let state_dict = [(''emb_params'', updated_embs)];
          state_dict =
            (case save_dtype of
               None \<Rightarrow> state_dict
             | Some d \<Rightarrow> map (\<lambda>(key, v). (key, to_dtype conv d v)) state_dict)
      in if snd (splitext file) = ''.safetensors''
         then save_file state_dict file fs
         else torch_save state_dict file fs)"

section \<open>\<^verbatim>\<open>load_weights\<close> (lines 518 to 541)\<close>

text \<open>
  \<^verbatim>\<open>data.values()\<close> at line 534: the values of a dictionary; on a dense tensor the call raises
  \<^verbatim>\<open>RuntimeError\<close>, on an object without the method \<^verbatim>\<open>AttributeError\<close>. An object with
  \<^verbatim>\<open>_parameters\<close> has been replaced by that dictionary at line 532 when it was found under
  \<^verbatim>\<open>string_to_param\<close>.
\<close>

fun py_values :: "'v pyobj \<Rightarrow> error + 'v pyobj list" where
  "py_values (PyDict kvs) = Inr (map snd kvs)"
| "py_values (PyTensor t) = Inl RuntimeError"
| "py_values (PyParameter t) = Inl RuntimeError"
| "py_values (PyModule ps) = Inl AttributeError"
| "py_values PyOther = Inl AttributeError"

text \<open>Lines 529 to 532: the branch on the key \<^verbatim>\<open>string_to_param\<close>.\<close>

definition unwrap_string_to_param :: "(string \<times> 'v pyobj) list \<Rightarrow> 'v pyobj" where
  "unwrap_string_to_param kvs =
     (case map_of kvs ''string_to_param'' of
        None \<Rightarrow> PyDict kvs
      | Some (PyModule ps) \<Rightarrow> PyDict ps
      | Some d \<Rightarrow> d)"

text \<open>Lines 519 to 534, up to \<^verbatim>\<open>data.values()\<close>.\<close>

definition load_values :: "'v filesystem \<Rightarrow> string \<Rightarrow> error + 'v pyobj list" where
  "load_values fs file =
     (if snd (splitext file) = ''.safetensors''
      then (case load_file fs file of
              Inl e \<Rightarrow> Inl e
            | Inr data \<Rightarrow> Inr (map (\<lambda>(k, t). PyTensor t) data))
      else (case torch_load fs file of
              Inl e \<Rightarrow> Inl e
            | Inr (PyDict kvs) \<Rightarrow> py_values (unwrap_string_to_param kvs)
            | Inr other \<Rightarrow> Inl WeightFileNotDict))"

definition load_weights :: "'v filesystem \<Rightarrow> string \<Rightarrow> error + 'v tensor" where
  "load_weights fs file =
     (case load_values fs file of
        Inl e \<Rightarrow> Inl e
      | Inr [] \<Rightarrow> Inl StopIteration
      | Inr (PyTensor emb # rest) \<Rightarrow>
          Inr (if length (shape emb) = 1 then unsqueeze0 emb else emb)
      | Inr (other # rest) \<Rightarrow> Inl WeightFileNoTensor)"



section \<open>The embedding guard (lines 279 to 281 and 406 to 410)\<close>

text \<open>\<^verbatim>\<open>index_no_updates = torch.arange(len(tokenizer)) < token_ids[0]\<close> (line 279).\<close>

definition index_no_updates :: "nat \<Rightarrow> nat \<Rightarrow> bool list" where
  "index_no_updates len_tok first_token_id = map (\<lambda>i. i < first_token_id) [0..<len_tok]"

text \<open>
  Indexing the rows of a matrix with a boolean mask. The mask must be as long as the matrix has
  rows, or the indexing raises \<^verbatim>\<open>IndexError\<close>. Reading gives the rows at which the mask is true,
  in order; writing puts the given rows, in order, at the places at which the mask is true, and
  raises when their number is not the number of those places.
\<close>

definition masked_select :: "bool list \<Rightarrow> 'row list \<Rightarrow> error + 'row list" where
  "masked_select no_updates m =
     (if length no_updates \<noteq> length m then Inl IndexError
      else Inr (map snd (filter fst (zip no_updates m))))"

fun masked_put :: "bool list \<Rightarrow> 'row list \<Rightarrow> 'row list \<Rightarrow> 'row list" where
  "masked_put (True # no_updates) (x # xs) (v # vs) = v # masked_put no_updates xs vs"
| "masked_put (False # no_updates) (x # xs) vs = x # masked_put no_updates xs vs"
| "masked_put no_updates xs vs = xs"

definition masked_assign :: "bool list \<Rightarrow> 'row list \<Rightarrow> 'row list \<Rightarrow> error + 'row list" where
  "masked_assign no_updates m vs =
     (if length no_updates \<noteq> length m then Inl IndexError
      else if length vs \<noteq> length (filter (\<lambda>b. b) no_updates) then Inl RuntimeError
      else Inr (masked_put no_updates m vs))"

text \<open>
  \<^verbatim>\<open>weight[index_no_updates] = orig_embeds_params[index_no_updates]\<close> (lines 408 to 410): the
  right-hand side is evaluated first.
\<close>

definition embedding_guard :: "bool list \<Rightarrow> 'row list \<Rightarrow> 'row list \<Rightarrow> error + 'row list" where
  "embedding_guard no_updates orig_embeds_params weight =
     (case masked_select no_updates orig_embeds_params of
        Inl e \<Rightarrow> Inl e
      | Inr rows \<Rightarrow> masked_assign no_updates weight rows)"

section \<open>The training loop (lines 311, 312, 329 and 338 to 436)\<close>

text \<open>
  The state the loop changes: the live embedding matrix of the text encoder and the global step
  counter. Two collaborators are parameters of the loop, each a function of the epoch and of the
  batch index within the epoch:
  \<^item> \<open>optimizer_step\<close>, the effect on the embedding matrix of the forward pass, the backward pass
    and \<^verbatim>\<open>optimizer.step()\<close> of one batch (lines 348 to 404): any function of the matrix;
  \<^item> \<open>sync_gradients\<close>, the value of \<^verbatim>\<open>accelerator.sync_gradients\<close> at line 413: whether the
    batch completed an optimization step.
  The global step counter therefore counts the optimization steps performed so far.
\<close>

record 'row train_state =
  weight :: "'row list"
  global_step :: nat

text \<open>One iteration of the batch loop, up to and including line 433.\<close>

definition train_batch ::
  "(nat \<Rightarrow> nat \<Rightarrow> 'row list \<Rightarrow> 'row list) \<Rightarrow> (nat \<Rightarrow> nat \<Rightarrow> bool) \<Rightarrow> bool list \<Rightarrow> 'row list
     \<Rightarrow> nat \<Rightarrow> nat \<Rightarrow> 'row train_state \<Rightarrow> error + 'row train_state" where
  "train_batch optimizer_step sync_gradients no_updates orig_embeds_params epoch step st =
     (case embedding_guard no_updates orig_embeds_params (optimizer_step epoch step (weight st)) of
        Inl e \<Rightarrow> Inl e
      | Inr w \<Rightarrow>
          Inr \<lparr>weight = w,
               global_step = (if sync_gradients epoch step then global_step st + 1 else global_step st)\<rparr>)"

text \<open>
  \<^verbatim>\<open>for step, batch in enumerate(train_dataloader)\<close>, with the \<^verbatim>\<open>break\<close> of lines 435 and 436
  after each iteration.
\<close>

fun batch_loop ::
  "(nat \<Rightarrow> nat \<Rightarrow> 'row list \<Rightarrow> 'row list) \<Rightarrow> (nat \<Rightarrow> nat \<Rightarrow> bool) \<Rightarrow> bool list \<Rightarrow> 'row list
     \<Rightarrow> nat \<Rightarrow> nat \<Rightarrow> nat list \<Rightarrow> 'row train_state \<Rightarrow> error + 'row train_state" where
  "batch_loop optimizer_step sync_gradients no_updates orig max_train_steps epoch [] st = Inr st"
| "batch_loop optimizer_step sync_gradients no_updates orig max_train_steps epoch (step # steps) st =
     (case train_batch optimizer_step sync_gradients no_updates orig epoch step st of
        Inl e \<Rightarrow> Inl e
      | Inr st' \<Rightarrow>
          if global_step st' \<ge> max_train_steps then Inr st'
          else batch_loop optimizer_step sync_gradients no_updates orig max_train_steps epoch steps st')"

text \<open>\<^verbatim>\<open>for epoch in range(num_train_epochs)\<close> (line 338).\<close>

fun epoch_loop ::
  "(nat \<Rightarrow> nat \<Rightarrow> 'row list \<Rightarrow> 'row list) \<Rightarrow> (nat \<Rightarrow> nat \<Rightarrow> bool) \<Rightarrow> bool list \<Rightarrow> 'row list
     \<Rightarrow> nat \<Rightarrow> nat \<Rightarrow> nat list \<Rightarrow> 'row train_state \<Rightarrow> error + 'row train_state" where
  "epoch_loop optimizer_step sync_gradients no_updates orig max_train_steps len_train_dataloader [] st = Inr st"
| "epoch_loop optimizer_step sync_gradients no_updates orig max_train_steps len_train_dataloader (epoch # epochs) st =
     (case batch_loop optimizer_step sync_gradients no_updates orig max_train_steps epoch
             [0..<len_train_dataloader] st of
        Inl e \<Rightarrow> Inl e
      | Inr st' \<Rightarrow>
          epoch_loop optimizer_step sync_gradients no_updates orig max_train_steps len_train_dataloader epochs st')"

text \<open>
  \<^verbatim>\<open>math.ceil(a / b)\<close> for non-negative integers (lines 311 and 312), as the exact ceiling of the
  quotient; division by zero raises.
\<close>

definition ceil_div :: "nat \<Rightarrow> nat \<Rightarrow> error + nat" where
  "ceil_div a b = (if b = 0 then Inl ZeroDivisionError else Inr ((a + b - 1) div b))"

text \<open>
  Lines 279 to 281 (the mask and the snapshot \<^verbatim>\<open>orig_embeds_params\<close>, a clone of the live
  matrix), lines 311 and 312 (the number of epochs), line 329 and the two loops. Between the snapshot
  and the loop the model changes nothing in the matrix: no state is resumed (line 308) and the
  precision of the text encoder is not changed (line 305). \<^verbatim>\<open>token_ids[0]\<close> raises on an empty
  list.
\<close>

definition train_loop ::
  "(nat \<Rightarrow> nat \<Rightarrow> 'row list \<Rightarrow> 'row list) \<Rightarrow> (nat \<Rightarrow> nat \<Rightarrow> bool) \<Rightarrow> nat \<Rightarrow> nat \<Rightarrow> nat
     \<Rightarrow> nat \<Rightarrow> nat list \<Rightarrow> 'row list \<Rightarrow> error + 'row train_state" where
  "train_loop optimizer_step sync_gradients len_train_dataloader gradient_accumulation_steps
      max_train_steps len_tok token_ids embeds =
     (case token_ids of
        [] \<Rightarrow> Inl IndexError
      | first_token_id # other_token_ids \<Rightarrow>
          let no_updates = index_no_updates len_tok first_token_id;
              orig_embeds_params = embeds
          in case ceil_div len_train_dataloader gradient_accumulation_steps of
               Inl e \<Rightarrow> Inl e
             | Inr num_update_steps_per_epoch \<Rightarrow>
                 (case ceil_div max_train_steps num_update_steps_per_epoch of
                    Inl e \<Rightarrow> Inl e
                  | Inr num_train_epochs \<Rightarrow>
                      epoch_loop optimizer_step sync_gradients no_updates orig_embeds_params
                        max_train_steps len_train_dataloader [0..<num_train_epochs]
                        \<lparr>weight = embeds, global_step = 0\<rparr>))"

section \<open>Properties of the token registration\<close>

lemma str_nat_not_Nil: "str_nat n \<noteq> []"
  by (subst str_nat.simps) simp

lemma digit_char_inj: "a < 10 \<Longrightarrow> b < 10 \<Longrightarrow> digit_char a = digit_char b \<Longrightarrow> a = b"
proof -
  assume a: "a < 10" and b: "b < 10" and e: "digit_char a = digit_char b"
  have d: "distinct ''0123456789''" by simp
  have l: "length ''0123456789'' = 10" by simp
  from e have "''0123456789'' ! a = ''0123456789'' ! b" by (simp only: digit_char_def)
  with d a b l show "a = b" by (simp only: nth_eq_iff_index_eq)
qed

lemma str_nat_inj: "str_nat n = str_nat m \<Longrightarrow> n = m"
proof (induction n arbitrary: m rule: str_nat.induct)
  case (1 n)
  show ?case
  proof (cases "n < 10")
    case True
    then have sn: "str_nat n = [digit_char n]" by (subst str_nat.simps) simp
    show ?thesis
    proof (cases "m < 10")
      case mt: True
      then have "str_nat m = [digit_char m]" by (subst str_nat.simps) simp
      with sn "1.prems" have "digit_char n = digit_char m" by simp
      with True mt show ?thesis by (rule digit_char_inj)
    next
      case mf: False
      then have "str_nat m = str_nat (m div 10) @ [digit_char (m mod 10)]"
        by (subst str_nat.simps) simp
      with sn "1.prems" have "str_nat (m div 10) = []" by simp
      then show ?thesis by (simp add: str_nat_not_Nil)
    qed
  next
    case False
    then have sn: "str_nat n = str_nat (n div 10) @ [digit_char (n mod 10)]"
      by (subst str_nat.simps) simp
    show ?thesis
    proof (cases "m < 10")
      case mt: True
      then have "str_nat m = [digit_char m]" by (subst str_nat.simps) simp
      with sn "1.prems" have "str_nat (n div 10) = []" by simp
      then show ?thesis by (simp add: str_nat_not_Nil)
    next
      case mf: False
      then have "str_nat m = str_nat (m div 10) @ [digit_char (m mod 10)]"
        by (subst str_nat.simps) simp
      with sn "1.prems" have e1: "str_nat (n div 10) = str_nat (m div 10)"
        and e2: "digit_char (n mod 10) = digit_char (m mod 10)" by simp_all
      from "1.IH" [OF False e1] have d: "n div 10 = m div 10" .
      have "n mod 10 = m mod 10" by (rule digit_char_inj [OF _ _ e2]) simp_all
      with d show ?thesis by (metis div_mult_mod_eq)
    qed
  qed
qed

lemma distinct_token_strings: "distinct (token_strings p k)"
proof -
  have inj: "inj_on (\<lambda>i. p @ str_nat (i + 1)) (set [0..<nat (k - 1)])"
    by (rule inj_onI) (auto dest: str_nat_inj)
  have "p \<notin> (\<lambda>i. p @ str_nat (i + 1)) ` set [0..<nat (k - 1)]"
    by (auto simp: str_nat_not_Nil)
  then show ?thesis
    unfolding token_strings_def using inj by (simp add: distinct_map)
qed

lemma length_token_strings_pos: "1 \<le> k \<Longrightarrow> int (length (token_strings p k)) = k"
  by (simp add: token_strings_def)

lemma tokens_to_add_filter:
  "distinct ts \<Longrightarrow> set acc \<inter> set ts = {} \<Longrightarrow>
   tokens_to_add v ts acc = acc @ filter (\<lambda>t. t \<notin> set v) ts"
  by (induction ts arbitrary: acc) auto

lemma index_of_append_new:
  "x \<notin> set xs \<Longrightarrow>
   index_of x (xs @ ys) = (case index_of x ys of None \<Rightarrow> None | Some i \<Rightarrow> Some (length xs + i))"
  by (induction xs) (auto split: option.splits)

lemma index_of_nth: "distinct ys \<Longrightarrow> i < length ys \<Longrightarrow> index_of (ys ! i) ys = Some i"
proof (induction ys arbitrary: i)
  case Nil then show ?case by simp
next
  case (Cons y ys)
  then show ?case by (cases i) auto
qed

lemma convert_new_token:
  assumes "distinct ys" "i < length ys" "ys ! i \<notin> set (vocab tok)"
  shows "convert_token_to_id (tok\<lparr>vocab := vocab tok @ ys\<rparr>) (ys ! i) = length (vocab tok) + i"
  using assms by (simp add: convert_token_to_id_def index_of_append_new index_of_nth)

lemma convert_new_tokens:
  assumes "distinct ys" "set ys \<inter> set (vocab tok) = {}"
  shows "convert_tokens_to_ids (tok\<lparr>vocab := vocab tok @ ys\<rparr>) ys
           = [length (vocab tok)..<length (vocab tok) + length ys]"
proof (rule nth_equalityI)
  show "length (convert_tokens_to_ids (tok\<lparr>vocab := vocab tok @ ys\<rparr>) ys)
          = length [length (vocab tok)..<length (vocab tok) + length ys]"
    by (simp add: convert_tokens_to_ids_def)
next
  fix i assume "i < length (convert_tokens_to_ids (tok\<lparr>vocab := vocab tok @ ys\<rparr>) ys)"
  then have i: "i < length ys" by (simp add: convert_tokens_to_ids_def)
  with assms(2) have "ys ! i \<notin> set (vocab tok)" by (meson disjoint_iff nth_mem)
  with assms(1) i show "convert_tokens_to_ids (tok\<lparr>vocab := vocab tok @ ys\<rparr>) ys ! i
          = [length (vocab tok)..<length (vocab tok) + length ys] ! i"
    by (simp add: convert_tokens_to_ids_def convert_new_token)
qed

lemma add_tokens_all_new:
  assumes "distinct ys" "set ys \<inter> set (vocab tok) = {}"
  shows "add_tokens tok ys = (length ys, tok\<lparr>vocab := vocab tok @ ys\<rparr>)"
proof -
  have "filter (\<lambda>t. t \<notin> set (vocab tok)) ys = ys"
    using assms(2) by (auto simp: filter_id_conv)
  then show ?thesis
    using assms(1) by (simp add: add_tokens_def tokens_to_add_filter)
qed

lemma min_list_upt: "0 < k \<Longrightarrow> min_list [v..<v + k] = v"
proof -
  assume k: "0 < k"
  then have ne: "[v..<v + k] \<noteq> []" by simp
  have "Min (set [v..<v + k]) = v"
    using k by (intro Min_eqI) auto
  with min_list_Min [OF ne] show ?thesis by simp
qed

lemma add_new_tokens_ok_general:
  assumes K: "1 \<le> K"
    and new: "set (token_strings p K) \<inter> set (vocab tok) = {}"
  shows "add_new_tokens tok emb fresh p K =
     (Inr [length (vocab tok)..<length (vocab tok) + nat K],
      tok\<lparr>vocab := vocab tok @ token_strings p K\<rparr>,
      resize_token_embeddings emb fresh (length (vocab tok) + nat K))"
proof -
  let ?V = "length (vocab tok)"
  let ?ss = "token_strings p K"
  have len: "length ?ss = nat K" using K by (simp add: token_strings_def)
  have kpos: "0 < nat K" using K by simp
  have add: "add_tokens tok ?ss = (nat K, tok\<lparr>vocab := vocab tok @ ?ss\<rparr>)"
    using add_tokens_all_new [OF distinct_token_strings new] len by simp
  have ids: "convert_tokens_to_ids (tok\<lparr>vocab := vocab tok @ ?ss\<rparr>) ?ss = [?V..<?V + nat K]"
    using convert_new_tokens [OF distinct_token_strings new] len by simp
  have hd: "hd [?V..<?V + nat K] = ?V" using kpos by (simp add: hd_upt)
  have last: "last [?V..<?V + nat K] = ?V + nat K - 1" using kpos by (simp add: last_upt)
  have mn: "min_list [?V..<?V + nat K] = ?V" using kpos by (rule min_list_upt)
  show ?thesis
    unfolding add_new_tokens_def Let_def add split_conv ids hd last mn len_tokenizer_def
    using K len by (simp add: nat_diff_distrib' of_nat_diff)
qed


lemma add_tokens_filter:
  "add_tokens tok (token_strings p K) =
     (length (filter (\<lambda>s. s \<notin> set (vocab tok)) (token_strings p K)),
      tok\<lparr>vocab := vocab tok @ filter (\<lambda>s. s \<notin> set (vocab tok)) (token_strings p K)\<rparr>)"
  using tokens_to_add_filter [OF distinct_token_strings, of "[]" p K "vocab tok"]
  by (simp add: add_tokens_def Let_def)

lemma init_loop_result:
  assumes "ids \<noteq> []"
    and "\<forall>j\<in>set ids. j < length emb"
    and "\<forall>t\<in>set tids. t < length emb"
    and "distinct tids"
    and "set ids \<inter> set tids = {}"
  shows "\<exists>emb'. init_loop ids (enumerate n tids) emb = Inr emb'
           \<and> length emb' = length emb
           \<and> (\<forall>i<length tids. emb' ! (tids ! i) = emb ! (ids ! ((n + i) mod length ids)))
           \<and> (\<forall>r. r \<notin> set tids \<longrightarrow> emb' ! r = emb ! r)"
  using assms
proof (induction tids arbitrary: n emb)
  case Nil
  then show ?case by simp
next
  case (Cons t ts)
  let ?M = "length ids"
  let ?j = "ids ! (n mod ?M)"
  let ?emb1 = "emb[t := emb ! ?j]"
  have Mpos: "0 < ?M" using Cons.prems(1) by simp
  have jin: "?j \<in> set ids" using Mpos by simp
  have jlt: "?j < length emb" using Cons.prems(2) jin by blast
  have tlt: "t < length emb" using Cons.prems(3) by simp
  have tnot: "t \<notin> set ids" using Cons.prems(5) by auto
  have step: "init_loop ids (enumerate n (t # ts)) emb = init_loop ids (enumerate (Suc n) ts) ?emb1"
    using Mpos jlt tlt by (simp add: Let_def)
  have "\<exists>emb'. init_loop ids (enumerate (Suc n) ts) ?emb1 = Inr emb'
           \<and> length emb' = length ?emb1
           \<and> (\<forall>i<length ts. emb' ! (ts ! i) = ?emb1 ! (ids ! ((Suc n + i) mod length ids)))
           \<and> (\<forall>r. r \<notin> set ts \<longrightarrow> emb' ! r = ?emb1 ! r)"
    using Cons.prems by (intro Cons.IH) auto
  then obtain emb' where r: "init_loop ids (enumerate (Suc n) ts) ?emb1 = Inr emb'"
    and l: "length emb' = length ?emb1"
    and a: "\<forall>i<length ts. emb' ! (ts ! i) = ?emb1 ! (ids ! ((Suc n + i) mod length ids))"
    and b: "\<forall>r. r \<notin> set ts \<longrightarrow> emb' ! r = ?emb1 ! r"
    by blast
  have rows: "emb' ! ((t # ts) ! i) = emb ! (ids ! ((n + i) mod ?M))" if i: "i < length (t # ts)" for i
  proof (cases i)
    case 0
    have "t \<notin> set ts" using Cons.prems(4) by simp
    with b have "emb' ! t = ?emb1 ! t" by blast
    with tlt 0 show ?thesis by simp
  next
    case (Suc k)
    with i have k: "k < length ts" by simp
    let ?j' = "ids ! ((Suc n + k) mod ?M)"
    have "?j' \<in> set ids" using Mpos by simp
    with tnot have "?j' \<noteq> t" by auto
    then have "?emb1 ! ?j' = emb ! ?j'" by simp
    with a k Suc show ?thesis by simp
  qed
  have others: "emb' ! r = emb ! r" if "r \<notin> set (t # ts)" for r
  proof -
    from that have "r \<notin> set ts" and "r \<noteq> t" by auto
    with b show ?thesis by simp
  qed
  from step r l rows others show ?case by auto
qed

text \<open>
  Claim C3. For every \<open>K \<ge> 1\<close>, when none of the \<open>K\<close> generated token strings is in a vocabulary
  of size \<open>V\<close>, the registration of lines 113 to 126 succeeds, the token ids it returns are
  \<open>V, V + 1, \<dots>, V + K - 1\<close> in this order (contiguous and ascending, the set being exactly
  \<open>{V..V + K - 1}\<close>), the vocabulary has \<open>V + K\<close> entries afterwards, and the resized embedding
  matrix has as many rows as the vocabulary has entries.
\<close>

theorem add_new_tokens_ids_contiguous:
  assumes "1 \<le> K"
    and "set (token_strings token_string K) \<inter> set (vocab tok) = {}"
  shows "\<exists>tok' token_embeds.
           add_new_tokens tok emb fresh token_string K
             = (Inr [len_tokenizer tok..<len_tokenizer tok + nat K], tok', token_embeds)
           \<and> set [len_tokenizer tok..<len_tokenizer tok + nat K]
               = {len_tokenizer tok..len_tokenizer tok + nat K - 1}
           \<and> len_tokenizer tok' = len_tokenizer tok + nat K
           \<and> length token_embeds = len_tokenizer tok'"
proof -
  let ?tok' = "tok\<lparr>vocab := vocab tok @ token_strings token_string K\<rparr>"
  let ?emb' = "resize_token_embeddings emb fresh (length (vocab tok) + nat K)"
  have len: "length (token_strings token_string K) = nat K"
    using assms(1) by (simp add: token_strings_def)
  have r: "add_new_tokens tok emb fresh token_string K
             = (Inr [len_tokenizer tok..<len_tokenizer tok + nat K], ?tok', ?emb')"
    unfolding len_tokenizer_def by (rule add_new_tokens_ok_general [OF assms])
  have s: "set [len_tokenizer tok..<len_tokenizer tok + nat K]
             = {len_tokenizer tok..len_tokenizer tok + nat K - 1}"
    using assms(1) by auto
  have l1: "len_tokenizer ?tok' = len_tokenizer tok + nat K"
    by (simp add: len_tokenizer_def len)
  have l2: "length ?emb' = len_tokenizer ?tok'"
    by (simp add: len_tokenizer_def len resize_token_embeddings_def)
  from r s l1 l2 show ?thesis by blast
qed

theorem add_new_tokens_ids_contiguous_witness:
  "set (token_strings ''sks'' 3) \<inter> set (vocab \<lparr>vocab = [''a'', ''b''], unk_token_id = 0\<rparr>) = {}
   \<and> (\<exists>tok' token_embeds.
        add_new_tokens \<lparr>vocab = [''a'', ''b''], unk_token_id = 0\<rparr> [10, 20 :: nat] (\<lambda>r. 0) ''sks'' 3
          = (Inr [2, 3, 4], tok', token_embeds)
        \<and> len_tokenizer tok' = 5 \<and> length token_embeds = 5)"
proof -
  let ?T = "\<lparr>vocab = [''a'', ''b''], unk_token_id = 0\<rparr>"
  have ts: "token_strings ''sks'' 3 = [''sks'', ''sks1'', ''sks2'']"
    by code_simp
  have h: "set (token_strings ''sks'' 3) \<inter> set (vocab ?T) = {}"
    unfolding ts by simp
  have k: "(1::int) \<le> 3" by simp
  have v: "len_tokenizer ?T = 2" by (simp add: len_tokenizer_def)
  have u: "[2..<2 + nat 3] = [2, 3, 4]" by (simp add: upt_rec)
  from add_new_tokens_ids_contiguous [OF k h, of "[10, 20 :: nat]" "\<lambda>r. 0"]
  obtain tok' token_embeds where
    "add_new_tokens ?T [10, 20 :: nat] (\<lambda>r. 0) ''sks'' 3 = (Inr [2, 3, 4], tok', token_embeds)"
    "len_tokenizer tok' = 2 + nat 3" "length token_embeds = len_tokenizer tok'"
    unfolding v u by blast
  then have "add_new_tokens ?T [10, 20 :: nat] (\<lambda>r. 0) ''sks'' 3 = (Inr [2, 3, 4], tok', token_embeds)
      \<and> len_tokenizer tok' = 5 \<and> length token_embeds = 5" by simp
  with h show ?thesis by blast
qed


text \<open>
  Claim C4, as the code has it. For \<open>K \<ge> 1\<close>, if one of the \<open>K\<close> generated token strings is
  already in the vocabulary, the registration fails with the token conflict of lines 116 to 118.
  \<^verbatim>\<open>add_tokens\<close> has run by then: the vocabulary has grown by the number of generated strings
  that were new, so its size is unchanged exactly when every generated string was already there
  (always so for \<open>K = 1\<close>). The embedding matrix is not resized.
\<close>

theorem add_new_tokens_conflict:
  assumes "1 \<le> K"
    and "\<exists>s\<in>set (token_strings token_string K). s \<in> set (vocab tok)"
  shows "fst (add_new_tokens tok emb fresh token_string K) = Inl TokenConflict
         \<and> len_tokenizer (fst (snd (add_new_tokens tok emb fresh token_string K)))
             = len_tokenizer tok
               + length (filter (\<lambda>s. s \<notin> set (vocab tok)) (token_strings token_string K))
         \<and> (len_tokenizer (fst (snd (add_new_tokens tok emb fresh token_string K))) = len_tokenizer tok
              \<longleftrightarrow> (\<forall>s\<in>set (token_strings token_string K). s \<in> set (vocab tok)))
         \<and> snd (snd (add_new_tokens tok emb fresh token_string K)) = emb"
proof -
  let ?ss = "token_strings token_string K"
  let ?new = "filter (\<lambda>s. s \<notin> set (vocab tok)) ?ss"
  from assms(2) obtain s where s: "s \<in> set ?ss" "\<not> s \<notin> set (vocab tok)" by blast
  have "length ?new < length ?ss" using s by (rule length_filter_less)
  moreover have "int (length ?ss) = K" using assms(1) by (rule length_token_strings_pos)
  ultimately have ne: "int (length ?new) \<noteq> K" by linarith
  have r: "add_new_tokens tok emb fresh token_string K
             = (Inl TokenConflict, tok\<lparr>vocab := vocab tok @ ?new\<rparr>, emb)"
    unfolding add_new_tokens_def Let_def add_tokens_filter split_conv using ne by simp
  have e: "(length ?new = 0) = (\<forall>s\<in>set ?ss. s \<in> set (vocab tok))"
    by (auto simp: filter_empty_conv)
  show ?thesis unfolding r using e by (simp add: len_tokenizer_def)
qed

theorem add_new_tokens_conflict_witness:
  "fst (add_new_tokens \<lparr>vocab = [''a'', ''sks''], unk_token_id = 0\<rparr> [10, 20 :: nat] (\<lambda>r. 0) ''sks'' 1)
     = Inl TokenConflict
   \<and> len_tokenizer (fst (snd (add_new_tokens \<lparr>vocab = [''a'', ''sks''], unk_token_id = 0\<rparr>
        [10, 20 :: nat] (\<lambda>r. 0) ''sks'' 1))) = 2"
proof -
  let ?T = "\<lparr>vocab = [''a'', ''sks''], unk_token_id = 0\<rparr>"
  have ts: "token_strings ''sks'' 1 = [''sks'']" by code_simp
  have h: "\<exists>s\<in>set (token_strings ''sks'' 1). s \<in> set (vocab ?T)" unfolding ts by simp
  have k: "(1::int) \<le> 1" by simp
  have f: "filter (\<lambda>s. s \<notin> set (vocab ?T)) (token_strings ''sks'' 1) = []" unfolding ts by simp
  show ?thesis
    using add_new_tokens_conflict [OF k h, of "[10, 20 :: nat]" "\<lambda>r. 0"]
    unfolding f by (simp add: len_tokenizer_def)
qed

text \<open>
  The vocabulary size is not always left unchanged by a failed registration: with the vocabulary
  \<open>[a, sks]\<close>, the token string \<open>sks\<close> and \<open>K = 2\<close>, the string \<open>sks1\<close> is added before the
  assertion fails, and the vocabulary has three entries instead of two.
\<close>

theorem add_new_tokens_conflict_grows_vocabulary:
  "''sks'' \<in> set (token_strings ''sks'' 2)
   \<and> ''sks'' \<in> set (vocab \<lparr>vocab = [''a'', ''sks''], unk_token_id = 0\<rparr>)
   \<and> fst (add_new_tokens \<lparr>vocab = [''a'', ''sks''], unk_token_id = 0\<rparr> [10, 20 :: nat] (\<lambda>r. 0) ''sks'' 2)
       = Inl TokenConflict
   \<and> len_tokenizer \<lparr>vocab = [''a'', ''sks''], unk_token_id = 0\<rparr> = 2
   \<and> len_tokenizer (fst (snd (add_new_tokens \<lparr>vocab = [''a'', ''sks''], unk_token_id = 0\<rparr>
        [10, 20 :: nat] (\<lambda>r. 0) ''sks'' 2))) = 3"
proof -
  have ts: "token_strings ''sks'' 2 = [''sks'', ''sks1'']" by code_simp
  show ?thesis
    unfolding add_new_tokens_def add_tokens_def ts
    by (simp add: len_tokenizer_def)
qed

text \<open>
  After a successful registration the token ids and the ids of the initializer word, which are ids
  of the vocabulary as it was before, are as the initialisation needs them: the loop of lines 130 to
  132 returns, and fills the new rows cyclically from the rows of the initializer tokens.
\<close>

lemma init_after_add_new_tokens:
  assumes "1 \<le> K"
    and "set (token_strings token_string K) \<inter> set (vocab tok) = {}"
    and "init_token_ids \<noteq> []"
    and "\<forall>j\<in>set init_token_ids. j < len_tokenizer tok"
  shows "\<exists>tok' token_ids token_embeds token_embeds'.
           add_new_tokens tok emb fresh token_string K = (Inr token_ids, tok', token_embeds)
           \<and> length token_ids = nat K
           \<and> init_token_embeds (Some init_token_ids) token_ids token_embeds = Inr token_embeds'
           \<and> (\<forall>i<nat K. token_embeds' ! (token_ids ! i)
                             = token_embeds ! (init_token_ids ! (i mod length init_token_ids)))"
proof -
  let ?V = "length (vocab tok)"
  let ?ids = "[?V..<?V + nat K]"
  let ?tok' = "tok\<lparr>vocab := vocab tok @ token_strings token_string K\<rparr>"
  let ?emb = "resize_token_embeddings emb fresh (?V + nat K)"
  let ?M = "length init_token_ids"
  have r: "add_new_tokens tok emb fresh token_string K = (Inr ?ids, ?tok', ?emb)"
    by (rule add_new_tokens_ok_general [OF assms(1,2)])
  have lemb: "length ?emb = ?V + nat K" by (simp add: resize_token_embeddings_def)
  have a2: "\<forall>j\<in>set init_token_ids. j < length ?emb"
    using assms(4) by (auto simp: lemb len_tokenizer_def)
  have a3: "\<forall>t\<in>set ?ids. t < length ?emb" by (simp add: lemb)
  have a5: "set init_token_ids \<inter> set ?ids = {}"
    using assms(4) by (auto simp: len_tokenizer_def)
  from init_loop_result [OF assms(3) a2 a3 distinct_upt a5, of 0]
  obtain emb' where l: "init_loop init_token_ids (enumerate 0 ?ids) ?emb = Inr emb'"
    and rows: "\<forall>i<length ?ids. emb' ! (?ids ! i) = ?emb ! (init_token_ids ! ((0 + i) mod ?M))"
    by blast
  have i: "init_token_embeds (Some init_token_ids) ?ids ?emb = Inr emb'"
    using l by (simp add: init_token_embeds_def)
  have c: "\<forall>i<nat K. emb' ! (?ids ! i) = ?emb ! (init_token_ids ! (i mod ?M))"
    using rows by simp
  have "length ?ids = nat K" by simp
  with r i c show ?thesis by blast
qed

text \<open>
  Claim C5. When the initializer word encodes to \<open>M \<ge> 1\<close> token ids, the loop of lines 130 to
  132 returns, and for every \<open>i\<close> the row of the new token id \<open>token_ids[i]\<close> equals the row of
  the initializer token id \<open>init_token_ids[i mod M]\<close>, both as that row was before the loop and
  as it is after it. The token ids are distinct rows of the matrix, and the initializer ids are rows
  of the matrix that are none of them: they were encoded at line 105, before the new tokens were
  added at line 115, and the new ids lie above the old vocabulary.
\<close>

theorem init_token_embeds_cyclic:
  assumes "init_token_ids \<noteq> []"
    and "\<forall>j\<in>set init_token_ids. j < length token_embeds"
    and "\<forall>t\<in>set token_ids. t < length token_embeds"
    and "distinct token_ids"
    and "set init_token_ids \<inter> set token_ids = {}"
  shows "\<exists>token_embeds'.
           init_token_embeds (Some init_token_ids) token_ids token_embeds = Inr token_embeds'
           \<and> (\<forall>i<length token_ids.
                  token_embeds' ! (token_ids ! i)
                    = token_embeds ! (init_token_ids ! (i mod length init_token_ids))
                  \<and> token_embeds' ! (token_ids ! i)
                    = token_embeds' ! (init_token_ids ! (i mod length init_token_ids)))"
proof -
  let ?M = "length init_token_ids"
  from init_loop_result [OF assms, of 0]
  obtain emb' where l: "init_loop init_token_ids (enumerate 0 token_ids) token_embeds = Inr emb'"
    and rows: "\<forall>i<length token_ids.
                 emb' ! (token_ids ! i) = token_embeds ! (init_token_ids ! ((0 + i) mod ?M))"
    and others: "\<forall>r. r \<notin> set token_ids \<longrightarrow> emb' ! r = token_embeds ! r"
    by blast
  have i: "init_token_embeds (Some init_token_ids) token_ids token_embeds = Inr emb'"
    using l by (simp add: init_token_embeds_def)
  have c: "emb' ! (token_ids ! i) = token_embeds ! (init_token_ids ! (i mod ?M))
           \<and> emb' ! (token_ids ! i) = emb' ! (init_token_ids ! (i mod ?M))"
    if "i < length token_ids" for i
  proof -
    from that rows have 1: "emb' ! (token_ids ! i) = token_embeds ! (init_token_ids ! (i mod ?M))"
      by simp
    have "init_token_ids ! (i mod ?M) \<in> set init_token_ids" using assms(1) by simp
    with assms(5) have "init_token_ids ! (i mod ?M) \<notin> set token_ids" by blast
    with others have "emb' ! (init_token_ids ! (i mod ?M)) = token_embeds ! (init_token_ids ! (i mod ?M))"
      by blast
    with 1 show ?thesis by simp
  qed
  from i c show ?thesis by blast
qed

theorem init_token_embeds_cyclic_witness:
  "\<exists>token_embeds'.
     init_token_embeds (Some [2, 0]) [3, 4, 5] [10, 20, 30, 0, 0, 0 :: nat] = Inr token_embeds'
     \<and> token_embeds' ! 3 = 30 \<and> token_embeds' ! 4 = 10 \<and> token_embeds' ! 5 = 30"
proof -
  let ?emb = "[10, 20, 30, 0, 0, 0 :: nat]"
  have a1: "[2, 0 :: nat] \<noteq> []" by simp
  have a2: "\<forall>j\<in>set [2, 0 :: nat]. j < length ?emb" by simp
  have a3: "\<forall>t\<in>set [3, 4, 5 :: nat]. t < length ?emb" by simp
  have a4: "distinct [3, 4, 5 :: nat]" by simp
  have a5: "set [2, 0 :: nat] \<inter> set [3, 4, 5] = {}" by simp
  from init_token_embeds_cyclic [OF a1 a2 a3 a4 a5]
  obtain e' where r: "init_token_embeds (Some [2, 0]) [3, 4, 5] ?emb = Inr e'"
    and c: "\<forall>i<length [3, 4, 5 :: nat].
              e' ! ([3, 4, 5] ! i) = ?emb ! ([2, 0] ! (i mod length [2, 0 :: nat]))"
    by blast
  have lt: "(0::nat) < length [3, 4, 5 :: nat]" "(1::nat) < length [3, 4, 5 :: nat]"
    "(2::nat) < length [3, 4, 5 :: nat]" by simp_all
  have e0: "?emb ! ([2, 0] ! (0 mod length [2, 0 :: nat])) = 30" by code_simp
  have e1: "?emb ! ([2, 0] ! (1 mod length [2, 0 :: nat])) = 10" by code_simp
  have e2: "?emb ! ([2, 0] ! (2 mod length [2, 0 :: nat])) = 30" by code_simp
  from c lt(1) have "e' ! ([3, 4, 5] ! 0) = ?emb ! ([2, 0] ! (0 mod length [2, 0 :: nat]))" by blast
  then have r0: "e' ! 3 = 30" unfolding e0 by simp
  from c lt(2) have "e' ! ([3, 4, 5] ! 1) = ?emb ! ([2, 0] ! (1 mod length [2, 0 :: nat]))" by blast
  then have r1: "e' ! 4 = 10" unfolding e1 by simp
  from c lt(3) have "e' ! ([3, 4, 5] ! 2) = ?emb ! ([2, 0] ! (2 mod length [2, 0 :: nat]))" by blast
  then have r2: "e' ! 5 = 30" unfolding e2 by simp
  from r r0 r1 r2 show ?thesis by blast
qed

section \<open>Properties of the weight codec\<close>

lemma load_save_values:
  "load_values (save_weights conv file t save_dtype fs) file
     = Inr [PyTensor (case save_dtype of None \<Rightarrow> t | Some d \<Rightarrow> to_dtype conv d t)]"
  by (cases save_dtype)
     (simp_all add: load_values_def save_weights_def save_file_def torch_save_def load_file_def
        torch_load_def unwrap_string_to_param_def)

lemma shape_to_dtype: "shape (to_dtype conv d t) = shape t"
  by (simp add: to_dtype_def)

lemma load_values_pickle_dict:
  "snd (splitext file) \<noteq> ''.safetensors'' \<Longrightarrow> fs file = Some (PickleFile (PyDict kvs)) \<Longrightarrow>
   load_values fs file = py_values (unwrap_string_to_param kvs)"
  by (simp add: load_values_def torch_load_def)

lemma load_values_safetensors:
  "snd (splitext file) = ''.safetensors'' \<Longrightarrow> fs file = Some (SafetensorsArchive kvs) \<Longrightarrow>
   load_values fs file = Inr (map (\<lambda>(k, t). PyTensor t) kvs)"
  by (simp add: load_values_def load_file_def)

text \<open>
  Claim C2. For every tensor \<open>t\<close> of shape \<open>[K, D]\<close> (any \<open>K\<close> and \<open>D\<close>, so in particular
  \<open>K \<ge> 1\<close> and \<open>D \<ge> 1\<close>), every path, whatever its extension, every file system and every
  \<open>save_dtype\<close>: \<^verbatim>\<open>load_weights\<close> after \<^verbatim>\<open>save_weights\<close> returns \<open>t\<close> cast to
  \<open>save_dtype\<close>, or \<open>t\<close> itself when \<open>save_dtype\<close> is \<^verbatim>\<open>None\<close>.
\<close>

theorem load_save_roundtrip:
  assumes "shape t = [K, D]"
  shows "load_weights (save_weights conv file t save_dtype fs) file
           = Inr (case save_dtype of None \<Rightarrow> t | Some d \<Rightarrow> to_dtype conv d t)"
  using assms
  by (cases save_dtype) (simp_all add: load_weights_def load_save_values shape_to_dtype)

theorem load_save_roundtrip_witness:
  "load_weights
     (save_weights (\<lambda>a b v. v div 2) ''out/emb.safetensors''
        \<lparr>dtype = Float32, shape = [2, 3], elems = [10, 20, 30, 40, 50, 60 :: nat]\<rparr> (Some Float16) Map.empty)
     ''out/emb.safetensors''
     = Inr \<lparr>dtype = Float16, shape = [2, 3], elems = [5, 10, 15, 20, 25, 30]\<rparr>
   \<and> load_weights
     (save_weights (\<lambda>a b v. v div 2) ''out/emb.pt''
        \<lparr>dtype = Float32, shape = [2, 3], elems = [10, 20, 30, 40, 50, 60 :: nat]\<rparr> None Map.empty)
     ''out/emb.pt''
     = Inr \<lparr>dtype = Float32, shape = [2, 3], elems = [10, 20, 30, 40, 50, 60]\<rparr>"
proof -
  let ?t = "\<lparr>dtype = Float32, shape = [2, 3], elems = [10, 20, 30, 40, 50, 60 :: nat]\<rparr>"
  have s: "shape ?t = [2, 3]" by simp
  show ?thesis
    using load_save_roundtrip [OF s, of "\<lambda>a b v. v div 2" "''out/emb.safetensors''" "Some Float16" Map.empty]
      load_save_roundtrip [OF s, of "\<lambda>a b v. v div 2" "''out/emb.pt''" None Map.empty]
    by (simp add: to_dtype_def)
qed




text \<open>
  Claim C8. On a file that is not a safetensors file and whose payload is a \<^verbatim>\<open>dict\<close> with, under
  the key \<^verbatim>\<open>string_to_param\<close>, a dictionary (or an object whose \<^verbatim>\<open>_parameters\<close> is a
  dictionary) whose first value is a tensor of shape \<open>[K, D]\<close>, \<^verbatim>\<open>load_weights\<close> returns that
  tensor unchanged.
\<close>

theorem load_weights_legacy:
  assumes "snd (splitext file) \<noteq> ''.safetensors''"
    and "fs file = Some (PickleFile (PyDict kvs))"
    and "map_of kvs ''string_to_param'' = Some d"
    and "d = PyDict ((k, PyTensor t) # rest) \<or> d = PyModule ((k, PyTensor t) # rest)"
    and "shape t = [K, D]"
  shows "load_weights fs file = Inr t"
proof -
  have "unwrap_string_to_param kvs = PyDict ((k, PyTensor t) # rest)"
    using assms(3,4) by (auto simp: unwrap_string_to_param_def)
  then have "load_values fs file = Inr (PyTensor t # map snd rest)"
    unfolding load_values_pickle_dict [of "file" fs, OF assms(1,2)] by simp
  then show ?thesis using assms(5) by (simp add: load_weights_def)
qed

theorem load_weights_legacy_witness:
  "load_weights
     [''emb.pt'' \<mapsto> PickleFile (PyDict
        [(''string_to_token'', PyOther),
         (''string_to_param'', PyDict [(''*'', PyTensor \<lparr>dtype = Float32, shape = [2, 3], elems = [1, 2, 3, 4, 5, 6 :: nat]\<rparr>)]),
         (''name'', PyOther)])]
     ''emb.pt''
   = Inr \<lparr>dtype = Float32, shape = [2, 3], elems = [1, 2, 3, 4, 5, 6 :: nat]\<rparr>"
proof -
  let ?t = "\<lparr>dtype = Float32, shape = [2, 3], elems = [1, 2, 3, 4, 5, 6 :: nat]\<rparr>"
  let ?kvs = "[(''string_to_token'', PyOther), (''string_to_param'', PyDict [(''*'', PyTensor ?t)]), (''name'', PyOther)]"
  have e: "snd (splitext ''emb.pt'') \<noteq> ''.safetensors''" by code_simp
  have f: "[''emb.pt'' \<mapsto> PickleFile (PyDict ?kvs)] ''emb.pt'' = Some (PickleFile (PyDict ?kvs))" by simp
  have m: "map_of ?kvs ''string_to_param'' = Some (PyDict [(''*'', PyTensor ?t)])" by simp
  have s: "shape ?t = [2, 3]" by simp
  show ?thesis
    by (rule load_weights_legacy [of "''emb.pt''" "[''emb.pt'' \<mapsto> PickleFile (PyDict ?kvs)]"
          ?kvs _ "''*''" ?t "[]", OF e f m _ s]) simp
qed


text \<open>
  Claim C9. For every \<open>D\<close>, when the stored tensor (the first value of a safetensors archive, of a
  pickled \<^verbatim>\<open>dict\<close> without the key \<^verbatim>\<open>string_to_param\<close>, or of the dictionary under that
  key) has the shape \<open>[D]\<close>, \<^verbatim>\<open>load_weights\<close> returns it with the shape \<open>[1, D]\<close>, its element
  type and its elements unchanged.
\<close>

theorem load_weights_rank1_promoted:
  assumes "shape t = [D]"
    and "(snd (splitext file) = ''.safetensors'' \<and> fs file = Some (SafetensorsArchive ((k, t) # rest)))
         \<or> (snd (splitext file) \<noteq> ''.safetensors''
              \<and> fs file = Some (PickleFile (PyDict ((k, PyTensor t) # items)))
              \<and> map_of ((k, PyTensor t) # items) ''string_to_param'' = None)
         \<or> (snd (splitext file) \<noteq> ''.safetensors''
              \<and> fs file = Some (PickleFile (PyDict kvs))
              \<and> map_of kvs ''string_to_param'' = Some (PyDict ((k, PyTensor t) # items)))"
  shows "load_weights fs file = Inr (t\<lparr>shape := [1, D]\<rparr>) \<and> shape (t\<lparr>shape := [1, D]\<rparr>) = [1, D]"
proof -
  have "\<exists>vs. load_values fs file = Inr (PyTensor t # vs)"
    using assms(2)
  proof (elim disjE conjE)
    assume e: "snd (splitext file) = ''.safetensors''"
      and f: "fs file = Some (SafetensorsArchive ((k, t) # rest))"
    show ?thesis unfolding load_values_safetensors [of "file" fs, OF e f] by simp
  next
    assume e: "snd (splitext file) \<noteq> ''.safetensors''"
      and f: "fs file = Some (PickleFile (PyDict ((k, PyTensor t) # items)))"
      and m: "map_of ((k, PyTensor t) # items) ''string_to_param'' = None"
    show ?thesis
      unfolding load_values_pickle_dict [of "file" fs, OF e f] unwrap_string_to_param_def m by simp
  next
    assume e: "snd (splitext file) \<noteq> ''.safetensors''"
      and f: "fs file = Some (PickleFile (PyDict kvs))"
      and m: "map_of kvs ''string_to_param'' = Some (PyDict ((k, PyTensor t) # items))"
    show ?thesis
      unfolding load_values_pickle_dict [of "file" fs, OF e f] unwrap_string_to_param_def m by simp
  qed
  then show ?thesis
    using assms(1) by (auto simp: load_weights_def unsqueeze0_def)
qed

theorem load_weights_rank1_promoted_witness:
  "load_weights
     [''emb.safetensors'' \<mapsto> SafetensorsArchive
        [(''emb_params'', \<lparr>dtype = Float16, shape = [4], elems = [1, 2, 3, 4 :: nat]\<rparr>)]]
     ''emb.safetensors''
   = Inr \<lparr>dtype = Float16, shape = [1, 4], elems = [1, 2, 3, 4 :: nat]\<rparr>"
proof -
  let ?t = "\<lparr>dtype = Float16, shape = [4], elems = [1, 2, 3, 4 :: nat]\<rparr>"
  let ?fs = "[''emb.safetensors'' \<mapsto> SafetensorsArchive [(''emb_params'', ?t)]]"
  have e: "snd (splitext ''emb.safetensors'') = ''.safetensors''" by code_simp
  have s: "shape ?t = [4]" by simp
  have f: "?fs ''emb.safetensors'' = Some (SafetensorsArchive ((''emb_params'', ?t) # []))" by simp
  from e f have h: "(snd (splitext ''emb.safetensors'') = ''.safetensors''
            \<and> ?fs ''emb.safetensors'' = Some (SafetensorsArchive ((''emb_params'', ?t) # [])))
         \<or> (snd (splitext ''emb.safetensors'') \<noteq> ''.safetensors''
              \<and> ?fs ''emb.safetensors'' = Some (PickleFile (PyDict ((''emb_params'', PyTensor ?t) # [])))
              \<and> map_of ((''emb_params'', PyTensor ?t) # []) ''string_to_param'' = None)
         \<or> (snd (splitext ''emb.safetensors'') \<noteq> ''.safetensors''
              \<and> ?fs ''emb.safetensors'' = Some (PickleFile (PyDict []))
              \<and> map_of [] ''string_to_param'' = Some (PyDict ((''emb_params'', PyTensor ?t) # [])))"
    by blast
  from load_weights_rank1_promoted [of ?t 4 "''emb.safetensors''" ?fs "''emb_params''" "[]" "[]" "[]", OF s h]
  show ?thesis by simp
qed

text \<open>
  Claim C10, as the code has it. \<^verbatim>\<open>load_weights\<close> inspects no key but \<^verbatim>\<open>string_to_param\<close>:
  from a safetensors archive, and from a pickled \<^verbatim>\<open>dict\<close> that has no key
  \<^verbatim>\<open>string_to_param\<close>, it returns the first value in iteration order when that value is a
  tensor, whatever its key (promoted to rank 2 when it has rank 1).
\<close>

theorem load_weights_first_value:
  "(snd (splitext file) = ''.safetensors'' \<and> fs file = Some (SafetensorsArchive ((k, t) # rest))
      \<longrightarrow> load_weights fs file = Inr (if length (shape t) = 1 then unsqueeze0 t else t))
   \<and> (snd (splitext file) \<noteq> ''.safetensors''
        \<and> fs file = Some (PickleFile (PyDict ((k, PyTensor t) # items)))
        \<and> map_of ((k, PyTensor t) # items) ''string_to_param'' = None
      \<longrightarrow> load_weights fs file = Inr (if length (shape t) = 1 then unsqueeze0 t else t))"
proof -
  have a: "load_weights fs file = Inr (if length (shape t) = 1 then unsqueeze0 t else t)"
    if e: "snd (splitext file) = ''.safetensors''"
      and f: "fs file = Some (SafetensorsArchive ((k, t) # rest))"
    unfolding load_weights_def load_values_safetensors [of "file" fs, OF e f] by simp
  have b: "load_weights fs file = Inr (if length (shape t) = 1 then unsqueeze0 t else t)"
    if e: "snd (splitext file) \<noteq> ''.safetensors''"
      and f: "fs file = Some (PickleFile (PyDict ((k, PyTensor t) # items)))"
      and m: "map_of ((k, PyTensor t) # items) ''string_to_param'' = None"
    unfolding load_weights_def load_values_pickle_dict [of "file" fs, OF e f]
      unwrap_string_to_param_def m by simp
  from a b show ?thesis by blast
qed

theorem load_weights_first_value_witness:
  "load_weights
     [''emb.pt'' \<mapsto> PickleFile (PyDict
        [(''any_key'', PyTensor \<lparr>dtype = Float32, shape = [1, 2], elems = [7, 8 :: nat]\<rparr>),
         (''other'', PyOther)])]
     ''emb.pt''
   = Inr \<lparr>dtype = Float32, shape = [1, 2], elems = [7, 8 :: nat]\<rparr>"
proof -
  let ?t = "\<lparr>dtype = Float32, shape = [1, 2], elems = [7, 8 :: nat]\<rparr>"
  let ?fs = "[''emb.pt'' \<mapsto> PickleFile (PyDict [(''any_key'', PyTensor ?t), (''other'', PyOther)])]"
  have e: "snd (splitext ''emb.pt'') \<noteq> ''.safetensors''" by code_simp
  have f: "?fs ''emb.pt'' = Some (PickleFile (PyDict ((''any_key'', PyTensor ?t) # [(''other'', PyOther)])))"
    by simp
  have m: "map_of ((''any_key'', PyTensor ?t) # [(''other'', PyOther)]) ''string_to_param'' = None"
    by simp
  from load_weights_first_value [of "''emb.pt''" ?fs "''any_key''" ?t _ "[(''other'', PyOther)]"] e f m
  show ?thesis by simp
qed

text \<open>
  The key \<^verbatim>\<open>string_to_param\<close> is inspected (line 529): from a pickled \<^verbatim>\<open>dict\<close> whose first
  value is a tensor under \<^verbatim>\<open>emb_params\<close> and which also has the key \<^verbatim>\<open>string_to_param\<close>,
  \<^verbatim>\<open>load_weights\<close> returns the tensor found under \<^verbatim>\<open>string_to_param\<close>, not the first value.
\<close>

theorem load_weights_string_to_param_not_first_value:
  "load_weights
     [''emb.pt'' \<mapsto> PickleFile (PyDict
        [(''emb_params'', PyTensor \<lparr>dtype = Float32, shape = [1, 2], elems = [7, 8 :: nat]\<rparr>),
         (''string_to_param'',
            PyDict [(''*'', PyTensor \<lparr>dtype = Float32, shape = [1, 2], elems = [5, 6 :: nat]\<rparr>)])])]
     ''emb.pt''
   = Inr \<lparr>dtype = Float32, shape = [1, 2], elems = [5, 6 :: nat]\<rparr>
   \<and> \<lparr>dtype = Float32, shape = [1, 2], elems = [5, 6 :: nat]\<rparr>
       \<noteq> \<lparr>dtype = Float32, shape = [1, 2], elems = [7, 8 :: nat]\<rparr>"
proof -
  have e: "snd (splitext ''emb.pt'') \<noteq> ''.safetensors''" by code_simp
  show ?thesis
    using e by (simp add: load_weights_def load_values_def torch_load_def unwrap_string_to_param_def)
qed

section \<open>Properties of the embedding guard and of the training loop\<close>

lemma masked_put_select:
  "length no_updates = length orig \<Longrightarrow> length orig = length w \<Longrightarrow>
   masked_put no_updates w (map snd (filter fst (zip no_updates orig)))
     = map (\<lambda>(m, a, x). if m then a else x) (zip no_updates (zip orig w))"
proof (induction no_updates orig w rule: list_induct3)
  case Nil
  then show ?case by simp
next
  case (Cons m no_updates ob orig x w)
  then show ?case by (cases m) simp_all
qed

lemma length_masked_rows:
  "length no_updates = length orig \<Longrightarrow>
   length (map snd (filter fst (zip no_updates orig))) = length (filter (\<lambda>b. b) no_updates)"
proof (induction no_updates orig rule: list_induct2)
  case Nil
  then show ?case by simp
next
  case (Cons m no_updates ob orig)
  then show ?case by simp
qed

lemma embedding_guard_eq:
  assumes "length no_updates = length orig" and "length orig = length w"
  shows "embedding_guard no_updates orig w = Inr (map (\<lambda>(m, a, x). if m then a else x) (zip no_updates (zip orig w)))"
proof -
  have l: "length no_updates = length w" using assms by simp
  have c: "length (map snd (filter fst (zip no_updates orig))) = length (filter (\<lambda>b. b) no_updates)"
    using assms(1) by (rule length_masked_rows)
  show ?thesis
    unfolding embedding_guard_def masked_select_def masked_assign_def
    using assms l c masked_put_select [OF assms] by simp
qed

lemma embedding_guard_rows:
  assumes "length orig = n" and "length w = n"
  shows "\<exists>w'. embedding_guard (index_no_updates n base) orig w = Inr w'
           \<and> length w' = n
           \<and> (\<forall>r<n. w' ! r = (if r < base then orig ! r else w ! r))"
proof -
  let ?mask = "index_no_updates n base"
  have lm: "length ?mask = n" by (simp add: index_no_updates_def)
  have g: "embedding_guard ?mask orig w = Inr (map (\<lambda>(m, a, x). if m then a else x) (zip ?mask (zip orig w)))"
    using assms lm by (intro embedding_guard_eq) simp_all
  have "map (\<lambda>(m, a, x). if m then a else x) (zip ?mask (zip orig w)) ! r
          = (if r < base then orig ! r else w ! r)" if "r < n" for r
    using that assms lm by (simp add: index_no_updates_def)
  with g assms lm show ?thesis by simp
qed

lemma train_batch_ok:
  assumes "length orig = n" and "length (weight st) = n"
    and "\<forall>e s w. length (optimizer_step e s w) = length w"
  shows "\<exists>w'. train_batch optimizer_step sync_gradients (index_no_updates n base) orig epoch step st
                 = Inr \<lparr>weight = w',
                        global_step = (if sync_gradients epoch step then global_step st + 1 else global_step st)\<rparr>
           \<and> length w' = n
           \<and> (\<forall>r<n. w' ! r = (if r < base then orig ! r else optimizer_step epoch step (weight st) ! r))"
proof -
  have "length (optimizer_step epoch step (weight st)) = n" using assms(2,3) by simp
  from embedding_guard_rows [OF assms(1) this, of base]
  show ?thesis by (auto simp: train_batch_def)
qed

lemma batch_loop_ok:
  assumes "length orig = n" and "length (weight st) = n"
    and "\<forall>e s w. length (optimizer_step e s w) = length w"
  shows "\<exists>st'. batch_loop optimizer_step sync_gradients (index_no_updates n base) orig max_train_steps
                  epoch steps st = Inr st'
           \<and> length (weight st') = n
           \<and> ((\<forall>r<n. r < base \<longrightarrow> weight st ! r = orig ! r) \<longrightarrow> (\<forall>r<n. r < base \<longrightarrow> weight st' ! r = orig ! r))
           \<and> (global_step st < max_train_steps \<longrightarrow>
                global_step st' = min max_train_steps
                   (global_step st + length (filter (sync_gradients epoch) steps)))"
  using assms(2)
proof (induction steps arbitrary: st)
  case Nil
  then show ?case by simp
next
  case (Cons step steps)
  let ?gs1 = "if sync_gradients epoch step then global_step st + 1 else global_step st"
  from train_batch_ok [OF assms(1) Cons.prems assms(3), of sync_gradients base epoch step]
  obtain w1 where tb: "train_batch optimizer_step sync_gradients (index_no_updates n base) orig epoch step st
                 = Inr \<lparr>weight = w1, global_step = ?gs1\<rparr>"
    and l1: "length w1 = n"
    and r1: "\<forall>r<n. w1 ! r = (if r < base then orig ! r else optimizer_step epoch step (weight st) ! r)"
    by blast
  let ?st1 = "\<lparr>weight = w1, global_step = ?gs1\<rparr>"
  have f1: "\<forall>r<n. r < base \<longrightarrow> weight ?st1 ! r = orig ! r" using r1 by simp
  show ?case
  proof (cases "max_train_steps \<le> ?gs1")
    case True
    then have res: "batch_loop optimizer_step sync_gradients (index_no_updates n base) orig max_train_steps
                  epoch (step # steps) st = Inr ?st1"
      using tb by simp
    have "global_step ?st1 = min max_train_steps
                   (global_step st + length (filter (sync_gradients epoch) (step # steps)))"
      if "global_step st < max_train_steps"
      using that True by (auto split: if_splits)
    with res l1 f1 show ?thesis by simp
  next
    case False
    then have res: "batch_loop optimizer_step sync_gradients (index_no_updates n base) orig max_train_steps
                  epoch (step # steps) st
           = batch_loop optimizer_step sync_gradients (index_no_updates n base) orig max_train_steps
                  epoch steps ?st1"
      using tb by simp
    have "length (weight ?st1) = n" using l1 by simp
    from Cons.IH [OF this] obtain st' where
      b: "batch_loop optimizer_step sync_gradients (index_no_updates n base) orig max_train_steps
                  epoch steps ?st1 = Inr st'"
      and l: "length (weight st') = n"
      and f: "(\<forall>r<n. r < base \<longrightarrow> weight ?st1 ! r = orig ! r) \<longrightarrow> (\<forall>r<n. r < base \<longrightarrow> weight st' ! r = orig ! r)"
      and g: "global_step ?st1 < max_train_steps \<longrightarrow>
                global_step st' = min max_train_steps
                   (global_step ?st1 + length (filter (sync_gradients epoch) steps))"
      by blast
    from f f1 have f': "\<forall>r<n. r < base \<longrightarrow> weight st' ! r = orig ! r" by blast
    have "global_step st' = min max_train_steps
                   (global_step st + length (filter (sync_gradients epoch) (step # steps)))"
      using g False by (auto split: if_splits)
    with res b l f' show ?thesis by simp
  qed
qed


lemma epoch_loop_ok:
  assumes "length orig = n"
    and "\<forall>e s w. length (optimizer_step e s w) = length w"
    and "\<forall>e. length (filter (sync_gradients e) [0..<N]) \<le> U"
    and "length (weight st) = n"
    and "(a + length epochs) * U < max_train_steps + U"
    and "global_step st \<le> a * U"
    and "global_step st \<le> max_train_steps"
  shows "\<exists>st'. epoch_loop optimizer_step sync_gradients (index_no_updates n base) orig max_train_steps
                  N epochs st = Inr st'
           \<and> length (weight st') = n
           \<and> ((\<forall>r<n. r < base \<longrightarrow> weight st ! r = orig ! r) \<longrightarrow> (\<forall>r<n. r < base \<longrightarrow> weight st' ! r = orig ! r))
           \<and> global_step st' \<le> max_train_steps
           \<and> ((\<forall>e. length (filter (sync_gradients e) [0..<N]) = U)
                 \<and> global_step st = min max_train_steps (a * U)
               \<longrightarrow> global_step st' = min max_train_steps ((a + length epochs) * U))"
  using assms(4-7)
proof (induction epochs arbitrary: st a)
  case Nil
  then show ?case by simp
next
  case (Cons e es)
  from Cons.prems(2) have "a * U + U + length es * U < max_train_steps + U"
    by (simp add: algebra_simps)
  then have aU: "a * U < max_train_steps" by linarith
  with Cons.prems(3) have lt: "global_step st < max_train_steps" by linarith
  from batch_loop_ok [OF assms(1) Cons.prems(1) assms(2), of sync_gradients base max_train_steps e "[0..<N]"]
  obtain st1 where
    b: "batch_loop optimizer_step sync_gradients (index_no_updates n base) orig max_train_steps
                  e [0..<N] st = Inr st1"
    and l: "length (weight st1) = n"
    and f: "(\<forall>r<n. r < base \<longrightarrow> weight st ! r = orig ! r) \<longrightarrow> (\<forall>r<n. r < base \<longrightarrow> weight st1 ! r = orig ! r)"
    and g: "global_step st < max_train_steps \<longrightarrow>
                global_step st1 = min max_train_steps
                   (global_step st + length (filter (sync_gradients e) [0..<N]))"
    by blast
  from g lt have g1: "global_step st1 = min max_train_steps
                   (global_step st + length (filter (sync_gradients e) [0..<N]))" by blast
  have c: "length (filter (sync_gradients e) [0..<N]) \<le> U" using assms(3) by blast
  have p2: "(Suc a + length es) * U < max_train_steps + U" using Cons.prems(2) by simp
  have p3: "global_step st1 \<le> Suc a * U" using g1 c Cons.prems(3) by simp
  have p4: "global_step st1 \<le> max_train_steps" using g1 by simp
  from Cons.IH [OF l p2 p3 p4] obtain st' where
    r: "epoch_loop optimizer_step sync_gradients (index_no_updates n base) orig max_train_steps
                  N es st1 = Inr st'"
    and l': "length (weight st') = n"
    and f': "(\<forall>r<n. r < base \<longrightarrow> weight st1 ! r = orig ! r) \<longrightarrow> (\<forall>r<n. r < base \<longrightarrow> weight st' ! r = orig ! r)"
    and m': "global_step st' \<le> max_train_steps"
    and x': "(\<forall>e. length (filter (sync_gradients e) [0..<N]) = U)
                 \<and> global_step st1 = min max_train_steps (Suc a * U)
               \<longrightarrow> global_step st' = min max_train_steps ((Suc a + length es) * U)"
    by blast
  have res: "epoch_loop optimizer_step sync_gradients (index_no_updates n base) orig max_train_steps
                  N (e # es) st = Inr st'"
    using b r by simp
  have ff: "(\<forall>r<n. r < base \<longrightarrow> weight st ! r = orig ! r) \<longrightarrow> (\<forall>r<n. r < base \<longrightarrow> weight st' ! r = orig ! r)"
    using f f' by blast
  have xx: "global_step st' = min max_train_steps ((a + length (e # es)) * U)"
    if all: "\<forall>e. length (filter (sync_gradients e) [0..<N]) = U"
      and gs: "global_step st = min max_train_steps (a * U)"
  proof -
    from gs aU have "global_step st = a * U" by simp
    with g1 all have "global_step st1 = min max_train_steps (Suc a * U)" by simp
    with x' all show ?thesis by simp
  qed
  from res l' ff m' xx show ?case by blast
qed

lemma ceil_upper: "0 < (U::nat) \<Longrightarrow> ((m + U - 1) div U) * U < m + U"
proof -
  assume U: "0 < U"
  have "((m + U - 1) div U) * U \<le> m + U - 1" by (rule div_times_less_eq_dividend)
  with U show ?thesis by linarith
qed

lemma ceil_lower: "0 < (U::nat) \<Longrightarrow> m \<le> ((m + U - 1) div U) * U"
proof -
  assume U: "0 < U"
  have "m + U - 1 < U + U * ((m + U - 1) div U)" using U by (rule dividend_less_times_div)
  then show ?thesis using U by (simp add: mult.commute)
qed

lemma ceil_pos: "0 < (N::nat) \<Longrightarrow> 0 < G \<Longrightarrow> 0 < (N + G - 1) div G"
  by (simp add: div_greater_zero_iff)

lemma train_loop_ok:
  assumes "0 < N" and "0 < G"
    and "length embeds = n"
    and "\<forall>e s w. length (optimizer_step e s w) = length w"
    and "\<forall>e. length (filter (sync_gradients e) [0..<N]) \<le> (N + G - 1) div G"
  shows "\<exists>st'. train_loop optimizer_step sync_gradients N G max_train_steps n (base_id # other_ids) embeds = Inr st'
           \<and> length (weight st') = n
           \<and> (\<forall>r<n. r < base_id \<longrightarrow> weight st' ! r = embeds ! r)
           \<and> global_step st' \<le> max_train_steps
           \<and> ((\<forall>e. length (filter (sync_gradients e) [0..<N]) = (N + G - 1) div G)
               \<longrightarrow> global_step st' = max_train_steps)"
proof -
  let ?U = "(N + G - 1) div G"
  let ?E = "(max_train_steps + ?U - 1) div ?U"
  let ?st0 = "\<lparr>weight = embeds, global_step = 0\<rparr>"
  have U: "0 < ?U" using assms(1,2) by (rule ceil_pos)
  have tl: "train_loop optimizer_step sync_gradients N G max_train_steps n (base_id # other_ids) embeds
          = epoch_loop optimizer_step sync_gradients (index_no_updates n base_id) embeds
              max_train_steps N [0..<?E] ?st0"
    using assms(2) U by (simp add: train_loop_def ceil_div_def Let_def)
  have p1: "length (weight ?st0) = n" using assms(3) by simp
  have p2: "(0 + length [0..<?E]) * ?U < max_train_steps + ?U" using ceil_upper [OF U] by simp
  have p3: "global_step ?st0 \<le> 0 * ?U" by simp
  have p4: "global_step ?st0 \<le> max_train_steps" by simp
  from epoch_loop_ok [OF assms(3,4,5) p1 p2 p3 p4, of base_id]
  obtain st' where
    r: "epoch_loop optimizer_step sync_gradients (index_no_updates n base_id) embeds
              max_train_steps N [0..<?E] ?st0 = Inr st'"
    and l: "length (weight st') = n"
    and f: "(\<forall>r<n. r < base_id \<longrightarrow> weight ?st0 ! r = embeds ! r)
              \<longrightarrow> (\<forall>r<n. r < base_id \<longrightarrow> weight st' ! r = embeds ! r)"
    and m: "global_step st' \<le> max_train_steps"
    and x: "(\<forall>e. length (filter (sync_gradients e) [0..<N]) = ?U)
                 \<and> global_step ?st0 = min max_train_steps (0 * ?U)
               \<longrightarrow> global_step st' = min max_train_steps ((0 + length [0..<?E]) * ?U)"
    by blast
  from f have f': "\<forall>r<n. r < base_id \<longrightarrow> weight st' ! r = embeds ! r" by simp
  have x': "global_step st' = max_train_steps"
    if "\<forall>e. length (filter (sync_gradients e) [0..<N]) = ?U"
  proof -
    from x that have "global_step st' = min max_train_steps (?E * ?U)" by simp
    with ceil_lower [OF U, of max_train_steps] show ?thesis by simp
  qed
  from tl r l f' m x' show ?thesis by simp
qed


lemma epoch_loop_frozen:
  assumes "length orig = n"
    and "\<forall>e s w. length (optimizer_step e s w) = length w"
    and "length (weight st) = n"
    and "\<forall>r<n. r < base \<longrightarrow> weight st ! r = orig ! r"
  shows "\<exists>st'. epoch_loop optimizer_step sync_gradients (index_no_updates n base) orig max_train_steps
                  N epochs st = Inr st'
           \<and> length (weight st') = n
           \<and> (\<forall>r<n. r < base \<longrightarrow> weight st' ! r = orig ! r)"
  using assms(3,4)
proof (induction epochs arbitrary: st)
  case Nil
  then show ?case by simp
next
  case (Cons e es)
  from batch_loop_ok [OF assms(1) Cons.prems(1) assms(2), of sync_gradients base max_train_steps e "[0..<N]"]
    Cons.prems(2)
  obtain st1 where
    b: "batch_loop optimizer_step sync_gradients (index_no_updates n base) orig max_train_steps
                  e [0..<N] st = Inr st1"
    and l: "length (weight st1) = n"
    and f: "\<forall>r<n. r < base \<longrightarrow> weight st1 ! r = orig ! r"
    by blast
  from Cons.IH [OF l f] b show ?case by simp
qed

text \<open>
  Claim C1. The snapshot and the live matrix have \<^verbatim>\<open>len(tokenizer)\<close> rows, and the optimizer
  step, whatever else it does to the matrix, keeps the number of its rows. Then every iteration of
  the batch loop, from any state, leaves every row \<open>r < base_id\<close> of the live matrix equal to row
  \<open>r\<close> of \<^verbatim>\<open>orig_embeds_params\<close>; and the whole training loop, for any number of batches and
  of steps, returns with these rows equal to the rows of the snapshot taken before it started
  (\<open>base_id\<close> is \<^verbatim>\<open>token_ids[0]\<close>, the first new token id).
\<close>

theorem frozen_rows_equal_snapshot:
  assumes "length orig_embeds_params = len_tok"
    and "\<forall>e s w. length (optimizer_step e s w) = length w"
  shows "(length (weight st) = len_tok \<longrightarrow>
           (\<exists>st'. train_batch optimizer_step sync_gradients (index_no_updates len_tok base_id)
                     orig_embeds_params epoch step st = Inr st'
                 \<and> (\<forall>r<len_tok. r < base_id \<longrightarrow> weight st' ! r = orig_embeds_params ! r)))
         \<and> (0 < N \<and> 0 < G \<longrightarrow>
           (\<exists>st'. train_loop optimizer_step sync_gradients N G max_train_steps len_tok
                     (base_id # other_ids) orig_embeds_params = Inr st'
                 \<and> (\<forall>r<len_tok. r < base_id \<longrightarrow> weight st' ! r = orig_embeds_params ! r)))"
proof (intro conjI impI)
  assume l: "length (weight st) = len_tok"
  from train_batch_ok [OF assms(1) l assms(2), of sync_gradients base_id epoch step]
  obtain w' where
    tb: "train_batch optimizer_step sync_gradients (index_no_updates len_tok base_id)
           orig_embeds_params epoch step st
         = Inr \<lparr>weight = w',
                global_step = (if sync_gradients epoch step then global_step st + 1 else global_step st)\<rparr>"
    and r: "\<forall>r<len_tok. w' ! r = (if r < base_id then orig_embeds_params ! r
                                    else optimizer_step epoch step (weight st) ! r)"
    by blast
  from tb r show "\<exists>st'. train_batch optimizer_step sync_gradients (index_no_updates len_tok base_id)
                     orig_embeds_params epoch step st = Inr st'
                 \<and> (\<forall>r<len_tok. r < base_id \<longrightarrow> weight st' ! r = orig_embeds_params ! r)"
    by simp
next
  assume "0 < N \<and> 0 < G"
  then have N: "0 < N" and G: "0 < G" by simp_all
  let ?U = "(N + G - 1) div G"
  let ?E = "(max_train_steps + ?U - 1) div ?U"
  let ?st0 = "\<lparr>weight = orig_embeds_params, global_step = 0\<rparr>"
  have U: "0 < ?U" using N G by (rule ceil_pos)
  have tl: "train_loop optimizer_step sync_gradients N G max_train_steps len_tok (base_id # other_ids) orig_embeds_params
          = epoch_loop optimizer_step sync_gradients (index_no_updates len_tok base_id)
              orig_embeds_params max_train_steps N [0..<?E] ?st0"
    using G U by (simp add: train_loop_def ceil_div_def Let_def)
  have p1: "length (weight ?st0) = len_tok" using assms(1) by simp
  have p2: "\<forall>r<len_tok. r < base_id \<longrightarrow> weight ?st0 ! r = orig_embeds_params ! r" by simp
  from epoch_loop_frozen [OF assms(1,2) p1 p2, of sync_gradients max_train_steps N "[0..<?E]"]
  show "\<exists>st'. train_loop optimizer_step sync_gradients N G max_train_steps len_tok
                     (base_id # other_ids) orig_embeds_params = Inr st'
                 \<and> (\<forall>r<len_tok. r < base_id \<longrightarrow> weight st' ! r = orig_embeds_params ! r)"
    unfolding tl by blast
qed

theorem frozen_rows_equal_snapshot_witness:
  "\<exists>st'. train_loop (\<lambda>e s w. map (\<lambda>x. x + 1) w) (\<lambda>e s. True) 10 1 3 5 [3, 4] [10, 20, 30, 40, 50 :: nat]
            = Inr st'
        \<and> weight st' ! 0 = 10 \<and> weight st' ! 1 = 20 \<and> weight st' ! 2 = 30"
proof -
  have a1: "length [10, 20, 30, 40, 50 :: nat] = 5" by simp
  have a2: "\<forall>e s w. length ((\<lambda>(e::nat) (s::nat) w. map (\<lambda>x::nat. x + 1) w) e s w) = length w" by simp
  have ng: "(0::nat) < 10 \<and> (0::nat) < 1" by simp
  from frozen_rows_equal_snapshot [OF a1 a2, of _ "\<lambda>e s. True" 3 _ _ 10 1 3 "[4]"] ng
  obtain st' where
    r: "train_loop (\<lambda>e s w. map (\<lambda>x. x + 1) w) (\<lambda>e s. True) 10 1 3 5 [3, 4] [10, 20, 30, 40, 50 :: nat] = Inr st'"
    and f: "\<forall>r<5. r < (3::nat) \<longrightarrow> weight st' ! r = [10, 20, 30, 40, 50 :: nat] ! r"
    by blast
  from f have "weight st' ! 0 = 10" "weight st' ! 1 = 20" "weight st' ! 2 = 30" by simp_all
  with r show ?thesis by blast
qed

text \<open>
  Claim C6. The counter is compared with \<^verbatim>\<open>max_train_steps\<close> after every batch iteration
  (\<open>batch_loop\<close>). When no epoch has more optimization steps than
  \<^verbatim>\<open>num_update_steps_per_epoch\<close>, the number the code computes at line 311, the training loop
  returns with at most \<^verbatim>\<open>max_train_steps\<close> optimization steps performed, and with exactly that
  many when every epoch has \<^verbatim>\<open>num_update_steps_per_epoch\<close> of them. With
  \<^verbatim>\<open>max_train_steps = 3\<close>, ten batches per epoch and an optimization step at every batch, the
  loop returns after exactly three optimization steps.
\<close>

theorem train_loop_stops_at_max_train_steps:
  assumes "0 < N" and "0 < G"
    and "length embeds = len_tok"
    and "\<forall>e s w. length (optimizer_step e s w) = length w"
    and "\<forall>e. length (filter (sync_gradients e) [0..<N]) \<le> (N + G - 1) div G"
  shows "(\<exists>st'. train_loop optimizer_step sync_gradients N G max_train_steps len_tok (base_id # other_ids) embeds = Inr st'
             \<and> global_step st' \<le> max_train_steps
             \<and> ((\<forall>e. length (filter (sync_gradients e) [0..<N]) = (N + G - 1) div G)
                  \<longrightarrow> global_step st' = max_train_steps))
         \<and> (\<exists>st'. train_loop optimizer_step (\<lambda>e s. True) 10 1 3 len_tok (base_id # other_ids) embeds = Inr st'
             \<and> global_step st' = 3)
         \<and> (train_batch optimizer_step sync_gradients no_updates orig epoch step st = Inr st1
               \<and> max_train_steps \<le> global_step st1
             \<longrightarrow> batch_loop optimizer_step sync_gradients no_updates orig max_train_steps epoch
                   (step # steps) st = Inr st1)"
proof -
  have brk: "train_batch optimizer_step sync_gradients no_updates orig epoch step st = Inr st1
               \<and> max_train_steps \<le> global_step st1
             \<longrightarrow> batch_loop optimizer_step sync_gradients no_updates orig max_train_steps epoch
                   (step # steps) st = Inr st1"
    by simp
  have a: "\<exists>st'. train_loop optimizer_step sync_gradients N G max_train_steps len_tok (base_id # other_ids) embeds = Inr st'
             \<and> global_step st' \<le> max_train_steps
             \<and> ((\<forall>e. length (filter (sync_gradients e) [0..<N]) = (N + G - 1) div G)
                  \<longrightarrow> global_step st' = max_train_steps)"
    using train_loop_ok [OF assms, of max_train_steps base_id other_ids] by blast
  have c: "\<forall>e::nat. length (filter ((\<lambda>e s. True) e) [0..<10]) = (10 + 1 - 1) div (1::nat)" by simp
  then have c': "\<forall>e::nat. length (filter ((\<lambda>e s. True) e) [0..<10]) \<le> (10 + 1 - 1) div (1::nat)" by simp
  have "(0::nat) < 10" "(0::nat) < 1" by simp_all
  from train_loop_ok [OF this assms(3,4) c', of 3 base_id other_ids] c
  have b: "\<exists>st'. train_loop optimizer_step (\<lambda>e s. True) 10 1 3 len_tok (base_id # other_ids) embeds = Inr st'
             \<and> global_step st' = 3"
    by blast
  from a b brk show ?thesis by blast
qed

theorem train_loop_stops_at_max_train_steps_witness:
  "\<exists>st'. train_loop (\<lambda>e s w. map (\<lambda>x. x + 1) w) (\<lambda>e s. (s + 1) mod 2 = 0 \<or> s + 1 = 5) 5 2 7 5 [3, 4]
            [10, 20, 30, 40, 50 :: nat] = Inr st'
        \<and> global_step st' = 7"
proof -
  have a1: "(0::nat) < 5" and a2: "(0::nat) < 2" by simp_all
  have a3: "length [10, 20, 30, 40, 50 :: nat] = 5" by simp
  have a4: "\<forall>e s w. length ((\<lambda>(e::nat) (s::nat) w. map (\<lambda>x::nat. x + 1) w) e s w) = length w" by simp
  have cnt: "length (filter (\<lambda>s::nat. (s + 1) mod 2 = 0 \<or> s + 1 = 5) [0..<5]) = 3" by code_simp
  have u: "(5 + 2 - 1) div 2 = (3::nat)" by simp
  have a5: "\<forall>e::nat. length (filter ((\<lambda>e s. (s + 1) mod 2 = 0 \<or> s + 1 = 5) e) [0..<5]) \<le> (5 + 2 - 1) div 2"
    unfolding u using cnt by simp
  have a6: "\<forall>e::nat. length (filter ((\<lambda>e s. (s + 1) mod 2 = 0 \<or> s + 1 = 5) e) [0..<5]) = (5 + 2 - 1) div 2"
    unfolding u using cnt by simp
  from train_loop_stops_at_max_train_steps [OF a1 a2 a3 a4 a5, of 7 3 "[4]"] a6
  show ?thesis by blast
qed

end
